theory Spec2Isabelle
  imports Complex_Main "HOL-Library.Word"
begin

section \<open>Data model of leveldb/session.go\<close>

text \<open>
  A Go byte slice is either \<open>nil\<close> or a sequence of bytes; \<open>None\<close> stands for the
  \<open>nil\<close> slice, which the planner tests for (\<open>cp == nil\<close>). Internal keys
  (\<open>iKey\<close>) and user keys are both byte slices.
\<close>

type_synonym bytes = "string option"
type_synonym iKey = bytes

text \<open>
  Modelled from the spec: the declaration of \<open>tFile\<close> is outside session.go. File
  metadata is a file number, the minimum and maximum internal key covered, and a byte
  size; session.go reads \<open>t.min\<close>, \<open>t.max\<close> and the \<open>uint64\<close> \<open>gp.size\<close>, here
  \<open>min_key\<close>, \<open>max_key\<close> and \<open>size_bytes\<close>.
\<close>

record tFile =
  num :: "64 word"
  size_bytes :: "64 word"
  min_key :: iKey
  max_key :: iKey

type_synonym tFiles = "tFile list"

text \<open>
  Modelled from the spec: \<open>tFiles.size()\<close> is declared outside session.go. It is the
  byte size of a file set, the sum of the sizes of its files, computed in \<open>uint64\<close>
  (so the sum wraps around at \<open>2 ^ 64\<close>).
\<close>

definition size_tFiles :: "tFiles \<Rightarrow> 64 word" where
  "size_tFiles tf = sum_list (map size_bytes tf)"

text \<open>
  Modelled from the spec: the declaration of \<open>tSet\<close> is outside session.go. The
  seek-compaction hint is a (file, level) pair; session.go reads \<open>ts.level\<close> and
  \<open>ts.table\<close>.
\<close>

record tSet =
  ts_level :: int
  ts_table :: tFile

text \<open>
  Modelled from the spec: the declaration of \<open>version\<close> is outside session.go. A
  version holds, per level, an ordered sequence of file metadata (\<open>v.tables\<close>, one
  entry per level), the level to compact next with its score (\<open>v.cLevel\<close>,
  \<open>v.cScore\<close>) and the single-slot seek hint \<open>v.cSeek\<close> (\<open>None\<close> is the nil
  pointer). Of the score session.go only asks whether it is \<open>>= 1\<close>.
\<close>

record version =
  tables :: "tFiles list"
  cLevel :: int
  cScore :: real
  cSeek :: "tSet option"

text \<open>
  Modelled from the spec: the comparers are declared outside session.go. The user
  comparer orders user keys and has a name; the internal-key comparer \<open>s.cmp\<close> holds
  the user comparer (\<open>icmp.cmp\<close>, here \<open>ucmp\<close>) and orders internal keys
  (\<open>icmp.Compare\<close>, here \<open>Compare_i\<close>). Both orders are left open.
\<close>

record basicComparer =
  Compare :: "bytes \<Rightarrow> bytes \<Rightarrow> int"
  Name :: string

record iComparer =
  ucmp :: basicComparer
  Compare_i :: "iKey \<Rightarrow> iKey \<Rightarrow> int"

text \<open>
  The compaction state. The two input sets \<open>tables [2]tFiles\<close> are a pair. The
  back pointer \<open>s *session\<close> is only read for the comparer, which the operations below
  take as an argument. \<open>gpidx\<close> starts at zero and is only ever incremented.
\<close>

record compaction =
  cversion :: version
  level :: int
  ctables :: "tFiles \<times> tFiles"
  gp :: tFiles
  gpidx :: nat
  seenKey :: bool
  overlappedBytes :: "64 word"
  cmin :: iKey
  cmax :: iKey
  tPtrs :: "int list"

text \<open>
  The constants \<open>kNumLevels\<close>, \<open>kExpCompactionMaxBytes\<close> and
  \<open>kMaxGrandParentOverlapBytes\<close> are declared outside session.go and are taken as
  parameters. Both byte ceilings are compared with \<open>uint64\<close> values.
\<close>

record params =
  kNumLevels :: int
  kExpCompactionMaxBytes :: "64 word"
  kMaxGrandParentOverlapBytes :: "64 word"

section \<open>compaction.trivial\<close>

definition trivial :: "params \<Rightarrow> compaction \<Rightarrow> bool" where
  "trivial p c =
     (length (fst (ctables c)) = 1 \<and> length (snd (ctables c)) = 0 \<and>
      size_tFiles (gp c) \<le> kMaxGrandParentOverlapBytes p)"

section \<open>compaction.shouldStopBefore\<close>

text \<open>
  The loop \<open>for ; c.gpidx < len(c.gp); c.gpidx++\<close>: it stops at the first grandparent
  file whose maximum key is not below \<open>key\<close>; every file it passes is added to
  \<open>overlappedBytes\<close> when a key has been seen before.
\<close>

function gpLoop :: "iComparer \<Rightarrow> iKey \<Rightarrow> compaction \<Rightarrow> compaction" where
  "gpLoop icmp key c =
     (if gpidx c < length (gp c) then
        (let g = gp c ! gpidx c in
         if Compare_i icmp key (max_key g) \<le> 0 then c
         else gpLoop icmp key
                (c\<lparr>overlappedBytes :=
                     (if seenKey c then overlappedBytes c + size_bytes g
                      else overlappedBytes c),
                   gpidx := gpidx c + 1\<rparr>))
      else c)"
  by pat_completeness auto
termination
  by (relation "measure (\<lambda>(icmp, key, c). length (gp c) - gpidx c)") auto

declare gpLoop.simps [simp del]

definition shouldStopBefore ::
  "params \<Rightarrow> iComparer \<Rightarrow> compaction \<Rightarrow> iKey \<Rightarrow> bool \<times> compaction" where
  "shouldStopBefore p icmp c key =
     (let c1 = gpLoop icmp key c;
          c2 = c1\<lparr>seenKey := True\<rparr>
      in if kMaxGrandParentOverlapBytes p < overlappedBytes c2
         then (True, c2\<lparr>overlappedBytes := 0\<rparr>)
         else (False, c2))"


section \<open>Errors, panics and the session\<close>

text \<open>
  Go errors as values: an error for which \<open>os.IsNotExist\<close> holds, the sentinel
  \<open>io.EOF\<close>, an \<open>errors.New\<close> string, and the wrapper \<open>ErrManifest\<close> of
  session.go. A run-time panic is kept apart from a returned error.
\<close>

datatype error = NotExist string | IoEOF | ErrorString string | ErrManifest error

datatype panic = IndexOutOfRange

datatype outcome = Panicked panic | Returned "error option"

fun IsNotExist :: "error option \<Rightarrow> bool" where
  "IsNotExist (Some (NotExist _)) = True"
| "IsNotExist _ = False"

text \<open>Indexing a Go array or slice: out of range is a panic.\<close>

definition index :: "'a list \<Rightarrow> int \<Rightarrow> panic + 'a" where
  "index xs i =
     (if 0 \<le> i \<and> i < int (length xs) then Inr (xs ! nat i) else Inl IndexOutOfRange)"

text \<open>
  Modelled from the spec: the storage is declared outside session.go. It locates the
  current manifest file (\<open>GetManifest\<close>), enumerates the existing files of a kind
  (\<open>GetFiles\<close>) and opens a file for sequential reading (\<open>file.Open()\<close>, which
  yields its bytes). What each call returns is left open.
\<close>

datatype fileType = TypeManifest | TypeJournal | TypeTable | TypeTemp | TypeAll

record storageFile =
  ftype :: fileType
  fnum :: "64 word"

record storage =
  GetManifest :: "error + storageFile"
  GetFiles :: "fileType \<Rightarrow> storageFile list \<times> error option"
  Open :: "storageFile \<Rightarrow> error + string"

text \<open>
  Modelled from the spec: the declaration of \<open>sessionRecord\<close> is outside
  session.go. A manifest record carries the comparer name, the next file number, the
  journal number, the last sequence, the deletions, the additions and the
  (level, key) compaction-pointer updates, and reports which fields were present:
  \<open>hasRec\<close> holds the fields supplied so far, and \<open>rec.has(f)\<close> asks for one.
\<close>

datatype recField = recComparer | recJournalNum | recNextNum | recSeq

record cpRecord =
  cp_level :: int
  cp_key :: bytes

record sessionRecord =
  hasRec :: "recField set"
  comparer :: string
  journalNum :: "64 word"
  nextNum :: "64 word"
  seq :: "64 word"
  compactionPointers :: "cpRecord list"
  addedTables :: "(int \<times> tFile) list"
  deletedTables :: "(int \<times> 64 word) list"

definition has :: "sessionRecord \<Rightarrow> recField \<Rightarrow> bool" where
  "has r f = (f \<in> hasRec r)"

text \<open>The zero value \<open>&sessionRecord{}\<close>.\<close>

definition emptyRecord :: sessionRecord where
  "emptyRecord =
     \<lparr>hasRec = {}, comparer = [], journalNum = 0, nextNum = 0, seq = 0,
      compactionPointers = [], addedTables = [], deletedTables = []\<rparr>"

text \<open>
  Modelled from the spec: \<open>resetCompactionPointers\<close>, \<open>resetAddedTables\<close> and
  \<open>resetDeletedTables\<close> are declared outside session.go; each empties its list of
  the record and leaves the other fields.
\<close>

definition resetCompactionPointers :: "sessionRecord \<Rightarrow> sessionRecord" where
  "resetCompactionPointers r = r\<lparr>compactionPointers := []\<rparr>"

definition resetAddedTables :: "sessionRecord \<Rightarrow> sessionRecord" where
  "resetAddedTables r = r\<lparr>addedTables := []\<rparr>"

definition resetDeletedTables :: "sessionRecord \<Rightarrow> sessionRecord" where
  "resetDeletedTables r = r\<lparr>deletedTables := []\<rparr>"

text \<open>
  The session. \<open>strictManifest\<close> is \<open>s.o.GetStrict(opt.StrictManifest)\<close>; the
  manifest journal writer is a handle or nil; \<open>stCPtrs\<close> is the array
  \<open>[kNumLevels]iKey\<close>.
\<close>

record session =
  stFileNum :: "64 word"
  stJournalNum :: "64 word"
  stPrevJournalNum :: "64 word"
  stSeq :: "64 word"
  stor :: storage
  strictManifest :: bool
  cmp :: iComparer
  manifest :: "nat option"
  manifestFile :: "storageFile option"
  stCPtrs :: "iKey list"
  stVersion :: version

text \<open>
  Modelled from the spec: \<open>version_NB\<close>, \<open>setVersion\<close>, \<open>setFileNum\<close> and
  \<open>recordCommited\<close> are declared outside session.go. \<open>version_NB\<close> reads the
  current version; \<open>setVersion\<close> installs a version as current; \<open>setFileNum\<close>
  stores the file-number counter; \<open>recordCommited\<close> records the journal number and
  the sequence number of an applied record as the new baseline.
\<close>

definition version_NB :: "session \<Rightarrow> version" where
  "version_NB s = stVersion s"

definition setVersion :: "session \<Rightarrow> version \<Rightarrow> session" where
  "setVersion s v = s\<lparr>stVersion := v\<rparr>"

definition setFileNum :: "session \<Rightarrow> 64 word \<Rightarrow> session" where
  "setFileNum s n = s\<lparr>stFileNum := n\<rparr>"

definition recordCommited :: "session \<Rightarrow> sessionRecord \<Rightarrow> session" where
  "recordCommited s r = s\<lparr>stJournalNum := journalNum r, stSeq := seq r\<rparr>"

text \<open>
  The collaborators session.go calls and does not define, as parameters: deriving a
  version (\<open>spawn\<close>, and the staging \<open>newStaging\<close>, \<open>commit\<close>, \<open>finish\<close>), writing
  the manifest (\<open>newManifest\<close>, \<open>flushManifest\<close>; both return the error and the
  session as they leave it), decoding a record from a journal chunk (\<open>decode\<close>
  returns the record as it leaves it and the error), and the journal reader
  (\<open>journalNext\<close>: the results of the successive \<open>jr.Next()\<close> calls over the bytes
  of a file, for a strictness; when they are used up \<open>jr.Next()\<close> returns io.EOF).
\<close>

record 'st sessionOps =
  spawn :: "version \<Rightarrow> sessionRecord \<Rightarrow> version"
  newManifest :: "session \<Rightarrow> sessionRecord \<Rightarrow> version \<Rightarrow> error option \<times> session"
  flushManifest :: "session \<Rightarrow> sessionRecord \<Rightarrow> error option \<times> session"
  newStaging :: "version \<Rightarrow> 'st"
  staging_commit :: "'st \<Rightarrow> sessionRecord \<Rightarrow> 'st"
  finish :: "'st \<Rightarrow> version"
  decode :: "sessionRecord \<Rightarrow> string \<Rightarrow> sessionRecord \<times> error option"
  journalNext :: "string \<Rightarrow> bool \<Rightarrow> (error + string) list"

text \<open>
  The table-set operations session.go calls and does not define, as parameters:
  \<open>iKey.ukey\<close>, \<open>tFiles.getRange\<close> and \<open>tFiles.getOverlaps\<close> (which takes the
  destination \<open>*r\<close> and returns it as it leaves it).
\<close>

record tableOps =
  ukey :: "iKey \<Rightarrow> bytes"
  getRange :: "tFiles \<Rightarrow> iComparer \<Rightarrow> iKey \<times> iKey"
  getOverlaps :: "tFiles \<Rightarrow> bytes \<Rightarrow> bytes \<Rightarrow> tFiles \<Rightarrow> bool \<Rightarrow> basicComparer \<Rightarrow> tFiles"

section \<open>session.commit\<close>

definition commit ::
  "'st sessionOps \<Rightarrow> session \<Rightarrow> sessionRecord \<Rightarrow> error option \<times> session" where
  "commit ops s r =
     (let nv = spawn ops (version_NB s) r;
          (err, s1) = (if manifest s = None then newManifest ops s r nv
                       else flushManifest ops s r)
      in if err = None then (err, setVersion s1 nv) else (err, s1))"


section \<open>compaction.expand\<close>

text \<open>
  \<open>expand\<close> reads \<open>v.tables[level]\<close> and \<open>v.tables[level+1]\<close> first (a panic when
  either index is out of range), gathers the parent set, tries to grow the level
  inputs once, and computes the grandparents when \<open>level+2 < kNumLevels\<close>. The call
  to \<open>s.logf\<close> only writes a log line.
\<close>

definition expand ::
  "params \<Rightarrow> tableOps \<Rightarrow> iComparer \<Rightarrow> compaction \<Rightarrow> panic + compaction" where
  "expand p ops icmp c =
     (let v = cversion c;
          ucmp' = ucmp icmp;
          lvl = level c
      in case index (tables v) lvl of Inl e \<Rightarrow> Inl e | Inr vt0 \<Rightarrow>
         (case index (tables v) (lvl + 1) of Inl e \<Rightarrow> Inl e | Inr vt1 \<Rightarrow>
           (let t0 = fst (ctables c);
                (mn, mx) = getRange ops t0 icmp;
                t1 = getOverlaps ops vt1 (ukey ops mn) (ukey ops mx) (snd (ctables c)) True ucmp';
                (amin, amax) = getRange ops (t0 @ t1) icmp;
                (mn, mx, t0, t1, amin, amax) =
                  (if 0 < length t1 then
                     (let exp0 = getOverlaps ops vt0 (ukey ops amin) (ukey ops amax) []
                                   (lvl \<noteq> 0) ucmp'
                      in if length t0 < length exp0 \<and>
                            size_tFiles t1 + size_tFiles exp0 < kExpCompactionMaxBytes p
                         then
                           (let (xmin, xmax) = getRange ops exp0 icmp;
                                exp1 = getOverlaps ops vt1 (ukey ops xmin) (ukey ops xmax) []
                                         True ucmp'
                            in if length exp1 = length t1
                               then (let (amin', amax') = getRange ops (exp0 @ exp1) icmp
                                     in (xmin, xmax, exp0, exp1, amin', amax'))
                               else (mn, mx, t0, t1, amin, amax))
                         else (mn, mx, t0, t1, amin, amax))
                   else (mn, mx, t0, t1, amin, amax))
            in case (if lvl + 2 < kNumLevels p
                     then (case index (tables v) (lvl + 2) of Inl e \<Rightarrow> Inl e
                           | Inr vt2 \<Rightarrow>
                               Inr (getOverlaps ops vt2 (ukey ops amin) (ukey ops amax) (gp c)
                                      True ucmp'))
                     else Inr (gp c)) of
                 Inl e \<Rightarrow> Inl e
               | Inr gp' \<Rightarrow> Inr (c\<lparr>gp := gp', ctables := (t0, t1), cmin := mn, cmax := mx\<rparr>))))"

section \<open>session.pickCompaction\<close>

text \<open>
  The loop over the files of the level: it stops at the first file that the
  compaction pointer does not cover, and leaves \<open>t0\<close> empty when there is none.
\<close>

fun pickLoop :: "iComparer \<Rightarrow> iKey \<Rightarrow> tFiles \<Rightarrow> tFiles" where
  "pickLoop icmp cp [] = []"
| "pickLoop icmp cp (t # tt) =
     (if cp = None \<or> 0 < Compare_i icmp (max_key t) cp then [t] else pickLoop icmp cp tt)"

text \<open>
  The choice of the level and of the initial input \<open>t0\<close> (the first \<open>if\<close> of
  pickCompaction). \<open>Inr None\<close> is the early \<open>return nil\<close>. The seek hint is read
  with \<open>atomic.LoadPointer\<close>.
\<close>

definition pickInput :: "session \<Rightarrow> panic + (int \<times> tFiles) option" where
  "pickInput s =
     (let icmp = cmp s;
          v = version_NB s
      in if 1 \<le> cScore v then
           (let lvl = cLevel v
            in case index (stCPtrs s) lvl of Inl e \<Rightarrow> Inl e | Inr cp \<Rightarrow>
               (case index (tables v) lvl of Inl e \<Rightarrow> Inl e | Inr tt \<Rightarrow>
                 (let t0 = pickLoop icmp cp tt
                  in if length t0 = 0
                     then (case index tt 0 of Inl e \<Rightarrow> Inl e
                           | Inr t \<Rightarrow> Inr (Some (lvl, t0 @ [t])))
                     else Inr (Some (lvl, t0)))))
         else (case cSeek v of
                 Some ts \<Rightarrow> Inr (Some (ts_level ts, [ts_table ts]))
               | None \<Rightarrow> Inr None))"

text \<open>The value \<open>&compaction{s: s, version: v, level: level}\<close>.\<close>

definition newCompaction :: "params \<Rightarrow> version \<Rightarrow> int \<Rightarrow> compaction" where
  "newCompaction p v lvl =
     \<lparr>cversion = v, level = lvl, ctables = ([], []), gp = [], gpidx = 0, seenKey = False,
      overlappedBytes = 0, cmin = None, cmax = None,
      tPtrs = replicate (nat (kNumLevels p)) 0\<rparr>"

text \<open>
  pickCompaction stores nothing in the session and nothing in the version, so the
  session after the call, returned with the result, is the session before it.
\<close>

definition pickCompaction ::
  "params \<Rightarrow> tableOps \<Rightarrow> session \<Rightarrow> (panic + compaction option) \<times> session" where
  "pickCompaction p ops s =
     (let icmp = cmp s;
          ucmp' = ucmp icmp;
          v = version_NB s
      in ((case pickInput s of
            Inl e \<Rightarrow> Inl e
          | Inr None \<Rightarrow> Inr None
          | Inr (Some (lvl, t0)) \<Rightarrow>
              (let c = newCompaction p v lvl
               in case (if lvl = 0
                        then (let (mn, mx) = getRange ops t0 icmp
                              in case index (tables v) 0 of Inl e \<Rightarrow> Inl e
                                 | Inr vt \<Rightarrow>
                                     Inr (getOverlaps ops vt (ukey ops mn) (ukey ops mx) []
                                            False ucmp'))
                        else Inr t0) of
                    Inl e \<Rightarrow> Inl e
                  | Inr t0' \<Rightarrow>
                      (case expand p ops icmp (c\<lparr>ctables := (t0', snd (ctables c))\<rparr>) of
                         Inl e \<Rightarrow> Inl e
                       | Inr c' \<Rightarrow> Inr (Some c')))),
          s))"

section \<open>session.recover\<close>

text \<open>Saving the compaction pointers of a decoded record: \<open>s.stCPtrs[rp.level] = rp.key\<close>.\<close>

fun saveCPtrs :: "cpRecord list \<Rightarrow> session \<Rightarrow> panic option \<times> session" where
  "saveCPtrs [] s = (None, s)"
| "saveCPtrs (rp # rps) s =
     (if 0 \<le> cp_level rp \<and> cp_level rp < int (length (stCPtrs s))
      then saveCPtrs rps (s\<lparr>stCPtrs := (stCPtrs s)[nat (cp_level rp) := cp_key rp]\<rparr>)
      else (Some IndexOutOfRange, s))"

text \<open>
  The replay loop over the results of \<open>jr.Next()\<close>. The first component is \<open>None\<close>
  when the loop ends at end of stream (the \<open>break\<close>), and the outcome of recover when
  the loop leaves the function.
\<close>

fun replay ::
  "'st sessionOps \<Rightarrow> bool \<Rightarrow> (error + string) list \<Rightarrow> session \<Rightarrow> 'st \<Rightarrow> sessionRecord \<Rightarrow>
     outcome option \<times> session \<times> 'st \<times> sessionRecord" where
  "replay ops strict [] s st rec = (None, s, st, rec)"
| "replay ops strict (Inl e # js) s st rec =
     (if e = IoEOF then (None, s, st, rec) else (Some (Returned (Some e)), s, st, rec))"
| "replay ops strict (Inr r # js) s st rec =
     (case decode ops rec r of
        (rec1, None) \<Rightarrow>
          (case saveCPtrs (compactionPointers rec1) s of
             (Some pn, s1) \<Rightarrow> (Some (Panicked pn), s1, st, rec1)
           | (None, s1) \<Rightarrow>
               replay ops strict js s1 (staging_commit ops st rec1)
                 (resetDeletedTables (resetAddedTables (resetCompactionPointers rec1))))
      | (rec1, Some e) \<Rightarrow>
          (if strict then (Some (Returned (Some (ErrManifest e))), s, st, rec1)
           else replay ops strict js s st
                  (resetDeletedTables (resetAddedTables (resetCompactionPointers rec1)))))"

text \<open>The \<open>switch\<close> after the loop: the fields the replay must have supplied.\<close>

definition validate :: "session \<Rightarrow> sessionRecord \<Rightarrow> error option" where
  "validate s rec =
     (if \<not> has rec recComparer
      then Some (ErrManifest (ErrorString ''leveldb: manifest missing comparer name''))
      else if comparer rec \<noteq> Name (ucmp (cmp s))
      then Some (ErrManifest (ErrorString
             (''leveldb: comparer mismatch, '' @ ''want '' @ [CHR 0x27] @ Name (ucmp (cmp s)) @
              [CHR 0x27] @ '', '' @ ''got '' @ [CHR 0x27] @ comparer rec @ [CHR 0x27])))
      else if \<not> has rec recNextNum
      then Some (ErrManifest (ErrorString ''leveldb: manifest missing next file number''))
      else if \<not> has rec recJournalNum
      then Some (ErrManifest (ErrorString ''leveldb: manifest missing journal file number''))
      else if \<not> has rec recSeq
      then Some (ErrManifest (ErrorString ''leveldb: manifest missing seq number''))
      else None)"

text \<open>The body of recover, before its deferred function runs.\<close>

definition recoverBody :: "'st sessionOps \<Rightarrow> session \<Rightarrow> outcome \<times> session" where
  "recoverBody ops s =
     (case GetManifest (stor s) of
        Inl e \<Rightarrow> (Returned (Some e), s)
      | Inr file \<Rightarrow>
          (case Open (stor s) file of
             Inl e \<Rightarrow> (Returned (Some e), s)
           | Inr reader \<Rightarrow>
               (let strict = strictManifest s;
                    jr = journalNext ops reader strict;
                    staging = newStaging ops (version_NB s)
                in case replay ops strict jr s staging emptyRecord of
                     (Some out, s1, staging1, rec1) \<Rightarrow> (out, s1)
                   | (None, s1, staging1, rec1) \<Rightarrow>
                       (case validate s1 rec1 of
                          Some e \<Rightarrow> (Returned (Some e), s1)
                        | None \<Rightarrow>
                            (Returned None,
                             recordCommited
                               (setFileNum
                                  (setVersion (s1\<lparr>manifestFile := Some file\<rparr>)
                                     (finish ops staging1))
                                  (nextNum rec1))
                               rec1)))))"

text \<open>
  recover: the body, then the deferred function, which replaces a not-exist error by
  the manifest-missing error when the storage lists any file. A panic of the body
  happens while \<open>err\<close> is nil, so the deferred function leaves it alone.
\<close>

definition recover :: "'st sessionOps \<Rightarrow> session \<Rightarrow> outcome \<times> session" where
  "recover ops s =
     (case recoverBody ops s of
        (Panicked pn, s1) \<Rightarrow> (Panicked pn, s1)
      | (Returned err, s1) \<Rightarrow>
          (if IsNotExist err
           then (case GetFiles (stor s1) TypeAll of
                   (files, _) \<Rightarrow>
                     (if 0 < length files
                      then (Returned (Some (ErrManifest
                              (ErrorString ''leveldb: manifest file missing''))), s1)
                      else (Returned err, s1)))
           else (Returned err, s1)))"


section \<open>Vocabulary of the statements\<close>

text \<open>
  The grandparent files a call of shouldStopBefore passes: the longest run of files,
  from the cursor on, whose maximum key is strictly below the key.
\<close>

definition passed :: "iComparer \<Rightarrow> iKey \<Rightarrow> compaction \<Rightarrow> tFiles" where
  "passed icmp key c =
     takeWhile (\<lambda>g. 0 < Compare_i icmp key (max_key g)) (drop (gpidx c) (gp c))"

text \<open>
  A file lies beyond the compaction pointer when the pointer is unset or the file's
  maximum key compares strictly greater than it.
\<close>

definition beyond :: "iComparer \<Rightarrow> iKey \<Rightarrow> tFile \<Rightarrow> bool" where
  "beyond icmp cp t = (cp = None \<or> 0 < Compare_i icmp (max_key t) cp)"

text \<open>
  The compaction pointers of the records that decode, in replay order: what the
  replay of a list of chunks has to save when no decode error stops it.
\<close>

fun decodedPointers :: "'st sessionOps \<Rightarrow> sessionRecord \<Rightarrow> string list \<Rightarrow> cpRecord list" where
  "decodedPointers ops rec [] = []"
| "decodedPointers ops rec (r # rs) =
     (case decode ops rec r of
        (rec1, err) \<Rightarrow>
          (if err = None then compactionPointers rec1 else []) @
          decodedPointers ops
            (resetDeletedTables (resetAddedTables (resetCompactionPointers rec1))) rs)"

text \<open>
  Every chunk of a list decodes without error (what a strict replay needs to reach the
  end of the journal).
\<close>

fun allDecode :: "'st sessionOps \<Rightarrow> sessionRecord \<Rightarrow> string list \<Rightarrow> bool" where
  "allDecode ops rec [] = True"
| "allDecode ops rec (r # rs) =
     (case decode ops rec r of
        (rec1, err) \<Rightarrow>
          err = None \<and>
          allDecode ops (resetDeletedTables (resetAddedTables (resetCompactionPointers rec1))) rs)"

text \<open>
  Storing one compaction pointer in the pointer array, and a pointer whose level
  indexes an array of the given length.
\<close>

definition store :: "iKey list \<Rightarrow> cpRecord \<Rightarrow> iKey list" where
  "store a rp = a[nat (cp_level rp) := cp_key rp]"

definition inRange :: "nat \<Rightarrow> cpRecord \<Rightarrow> bool" where
  "inRange n rp = (0 \<le> cp_level rp \<and> cp_level rp < int n)"

section \<open>Concrete inputs\<close>

text \<open>
  The collaborators are parameters of the model; the instances below serve to run the
  model on concrete inputs. The comparer orders byte slices bytewise, a nil slice as
  the empty one; internal keys are compared the same way and \<open>ukey\<close> is the identity
  (keys without sequence suffix).
\<close>

fun bytes_Compare :: "string \<Rightarrow> string \<Rightarrow> int" where
  "bytes_Compare [] [] = 0"
| "bytes_Compare [] (y # ys) = - 1"
| "bytes_Compare (x # xs) [] = 1"
| "bytes_Compare (x # xs) (y # ys) =
     (if (of_char x :: nat) < of_char y then - 1
      else if (of_char y :: nat) < of_char x then 1
      else bytes_Compare xs ys)"

definition slice :: "bytes \<Rightarrow> string" where
  "slice b = (case b of None \<Rightarrow> [] | Some x \<Rightarrow> x)"

definition bytewise :: basicComparer where
  "bytewise = \<lparr>Compare = (\<lambda>a b. bytes_Compare (slice a) (slice b)),
               Name = ''leveldb.BytewiseComparator''\<rparr>"

definition icmp0 :: iComparer where
  "icmp0 = \<lparr>ucmp = bytewise, Compare_i = Compare bytewise\<rparr>"

definition mkFile :: "64 word \<Rightarrow> 64 word \<Rightarrow> string \<Rightarrow> string \<Rightarrow> tFile" where
  "mkFile n sz lo hi = \<lparr>num = n, size_bytes = sz, min_key = Some lo, max_key = Some hi\<rparr>"

definition p0 :: params where
  "p0 = \<lparr>kNumLevels = 7, kExpCompactionMaxBytes = 52428800,
          kMaxGrandParentOverlapBytes = 20971520\<rparr>"

text \<open>
  Table operations: the range of a file set is its least minimum and greatest maximum
  key; the overlaps of a range are the files that intersect it, appended to the
  destination.
\<close>

fun getRange0 :: "tFiles \<Rightarrow> iComparer \<Rightarrow> iKey \<times> iKey" where
  "getRange0 [] icmp = (None, None)"
| "getRange0 [t] icmp = (min_key t, max_key t)"
| "getRange0 (t # ts) icmp =
     (let (lo, hi) = getRange0 ts icmp
      in (if Compare_i icmp (min_key t) lo < 0 then min_key t else lo,
          if 0 < Compare_i icmp (max_key t) hi then max_key t else hi))"

definition getOverlaps0 ::
  "tFiles \<Rightarrow> bytes \<Rightarrow> bytes \<Rightarrow> tFiles \<Rightarrow> bool \<Rightarrow> basicComparer \<Rightarrow> tFiles" where
  "getOverlaps0 tf lo hi r disjSorted uc =
     r @ filter (\<lambda>t. 0 \<le> Compare uc (max_key t) lo \<and> Compare uc (min_key t) hi \<le> 0) tf"

definition tops0 :: tableOps where
  "tops0 = \<lparr>ukey = (\<lambda>k. k), getRange = getRange0, getOverlaps = getOverlaps0\<rparr>"

text \<open>
  Session operations: spawning appends the added tables of the record to their
  levels; the staging is a version; writing the manifest succeeds or fails with the
  given error and leaves the version alone; a chunk of the journal carries one field,
  a tag byte and its payload (\<open>c\<close> the comparer name, \<open>n\<close>, \<open>j\<close>, \<open>s\<close> a number in
  unary, \<open>p\<close> a level digit and the key of a compaction pointer); the journal
  separates chunks by \<open>;\<close>.
\<close>

definition spawn0 :: "version \<Rightarrow> sessionRecord \<Rightarrow> version" where
  "spawn0 v r =
     v\<lparr>tables := map (\<lambda>(l, tf). tf @ map snd (filter (\<lambda>a. fst a = int l) (addedTables r)))
                    (enumerate 0 (tables v)),
       cSeek := None\<rparr>"

definition decode0 :: "sessionRecord \<Rightarrow> string \<Rightarrow> sessionRecord \<times> error option" where
  "decode0 r chunk =
     (case chunk of
        [] \<Rightarrow> (r, Some (ErrorString ''leveldb: empty record''))
      | tag # payload \<Rightarrow>
          (if tag = CHR ''c''
           then (r\<lparr>hasRec := insert recComparer (hasRec r), comparer := payload\<rparr>, None)
           else if tag = CHR ''n''
           then (r\<lparr>hasRec := insert recNextNum (hasRec r),
                    nextNum := of_nat (length payload)\<rparr>, None)
           else if tag = CHR ''j''
           then (r\<lparr>hasRec := insert recJournalNum (hasRec r),
                    journalNum := of_nat (length payload)\<rparr>, None)
           else if tag = CHR ''s''
           then (r\<lparr>hasRec := insert recSeq (hasRec r), seq := of_nat (length payload)\<rparr>, None)
           else if tag = CHR ''p''
           then (case payload of
                   [] \<Rightarrow> (r, Some (ErrorString ''leveldb: short record''))
                 | d # key \<Rightarrow>
                     (r\<lparr>compactionPointers := compactionPointers r @
                          [\<lparr>cp_level = int (of_char d) - 48, cp_key = Some key\<rparr>]\<rparr>, None))
           else (r, Some (ErrorString ''leveldb: unknown tag''))))"

fun chunks0 :: "string \<Rightarrow> string \<Rightarrow> string list" where
  "chunks0 acc [] = (if acc = [] then [] else [acc])"
| "chunks0 acc (x # xs) =
     (if x = CHR '';'' then acc # chunks0 [] xs else chunks0 (acc @ [x]) xs)"

definition ops0 :: "error option \<Rightarrow> version sessionOps" where
  "ops0 failure =
     \<lparr>spawn = spawn0,
      newManifest = (\<lambda>s r v. case failure of
                                None \<Rightarrow> (None, s\<lparr>manifest := Some 1\<rparr>)
                              | Some e \<Rightarrow> (Some e, s)),
      flushManifest = (\<lambda>s r. (failure, s)),
      newStaging = (\<lambda>v. v),
      staging_commit = spawn0,
      finish = (\<lambda>v. v),
      decode = decode0,
      journalNext = (\<lambda>bs strict. map Inr (chunks0 [] bs))\<rparr>"

text \<open>
  A version with three files at level 1 and a session on it: the key ranges are
  [a,f], [g,m] and [n,z].
\<close>

definition ver1 :: version where
  "ver1 = \<lparr>tables = [[], [mkFile 1 10 ''a'' ''f'', mkFile 2 10 ''g'' ''m'', mkFile 3 10 ''n'' ''z''],
                  [], [], [], [], []],
         cLevel = 1, cScore = 2, cSeek = None\<rparr>"

definition stor0 :: storage where
  "stor0 = \<lparr>GetManifest = Inl (NotExist ''MANIFEST''),
          GetFiles = (\<lambda>t. ([], None)),
          Open = (\<lambda>f. Inr [])\<rparr>"

definition ses1 :: "iKey \<Rightarrow> session" where
  "ses1 cp =
     \<lparr>stFileNum = 4, stJournalNum = 0, stPrevJournalNum = 0, stSeq = 0, stor = stor0,
      strictManifest = False, cmp = icmp0, manifest = Some 1, manifestFile = None,
      stCPtrs = [None, cp, None, None, None, None, None], stVersion = ver1\<rparr>"

text \<open>A record that adds one table at level 2.\<close>

definition rAdd :: sessionRecord where
  "rAdd = emptyRecord\<lparr>addedTables := [(2, mkFile 5 10 ''b'' ''c'')]\<rparr>"

text \<open>
  A compaction of one level-1 file with no parent, whose single grandparent has
  exactly the size of the grandparent-overlap ceiling.
\<close>

definition cMove :: compaction where
  "cMove = (newCompaction p0 ver1 1)
     \<lparr>ctables := ([mkFile 1 10 ''a'' ''f''], []), gp := [mkFile 9 20971520 ''a'' ''c'']\<rparr>"

text \<open>
  A compaction that has seen a key, with three grandparents of 12, 9 and 1 MiB below
  an empty counter.
\<close>

definition cStop :: compaction where
  "cStop = (newCompaction p0 ver1 1)
     \<lparr>ctables := ([mkFile 1 10 ''a'' ''k''], []),
       gp := [mkFile 7 12582912 ''a'' ''c'', mkFile 8 9437184 ''d'' ''f'',
              mkFile 9 1048576 ''h'' ''m''],
       seenKey := True\<rparr>"

text \<open>
  The session of the level-1 version with a score below 1 and a seek hint on the
  file [g,m]; and one whose candidate level 2 holds no file.
\<close>

definition sSeek :: session where
  "sSeek = (ses1 None)\<lparr>stVersion :=
      ver1\<lparr>cScore := 1 / 2, cSeek := Some \<lparr>ts_level = 1, ts_table = mkFile 2 10 ''g'' ''m''\<rparr>\<rparr>\<rparr>"

definition sEmpty :: session where
  "sEmpty = (ses1 None)\<lparr>stVersion := ver1\<lparr>cLevel := 2\<rparr>\<rparr>"

text \<open>
  A version whose level-2 file [b,e] spans the level-1 files [a,c] and [d,f], and a
  compaction of the file [a,c] at level 1.
\<close>

definition ver2 :: version where
  "ver2 = \<lparr>tables = [[],
                  [mkFile 1 10 ''a'' ''c'', mkFile 2 10 ''d'' ''f'', mkFile 3 10 ''n'' ''z''],
                  [mkFile 4 10 ''b'' ''e''], [], [], [], []],
         cLevel = 1, cScore = 2, cSeek = None\<rparr>"

definition cGrow :: compaction where
  "cGrow = (newCompaction p0 ver2 1)\<lparr>ctables := ([mkFile 1 10 ''a'' ''c''], [])\<rparr>"

text \<open>
  A session whose storage has no manifest but lists a table file; and a session whose
  storage holds a manifest with the given journal bytes.
\<close>

definition sFiles :: session where
  "sFiles = (ses1 None)\<lparr>stor := stor0\<lparr>GetFiles := (\<lambda>t. ([\<lparr>ftype = TypeTable, fnum = 5\<rparr>], None))\<rparr>\<rparr>"

definition sReplay :: "string \<Rightarrow> session" where
  "sReplay journal =
     (ses1 None)\<lparr>stor := \<lparr>GetManifest = Inr \<lparr>ftype = TypeManifest, fnum = 2\<rparr>,
                         GetFiles = (\<lambda>t. ([\<lparr>ftype = TypeManifest, fnum = 2\<rparr>], None)),
                         Open = (\<lambda>f. Inr journal)\<rparr>\<rparr>"

text \<open>
  The session whose candidate level is the last level, 6, which holds a file.
\<close>

definition sLast :: session where
  "sLast = (ses1 None)\<lparr>stVersion :=
      ver1\<lparr>tables := [[], [], [], [], [], [], [mkFile 6 10 ''a'' ''f'']], cLevel := 6\<rparr>\<rparr>"

section \<open>Properties\<close>

subsection \<open>commit\<close>

text \<open>
  C1. For every session record, commit returns the error of the manifest write (the
  creation of the manifest when there is no writer yet, the append otherwise), and
  the current version after the call is the candidate version when that write
  succeeded and the version before the call when it failed. So the candidate is
  published if and only if the write succeeds, and on failure commit itself changes
  nothing of the session. The manifest writers are collaborators that never store
  the current version.
\<close>

theorem commit_publishes_iff_append_succeeds:
  assumes new_frame: "\<And>s r v. stVersion (snd (newManifest ops s r v)) = stVersion s"
    and flush_frame: "\<And>s r. stVersion (snd (flushManifest ops s r)) = stVersion s"
  shows "let v = stVersion s;
             nv = spawn ops v r;
             append = (if manifest s = None then newManifest ops s r nv
                       else flushManifest ops s r);
             res = commit ops s r
         in fst res = fst append \<and>
            stVersion (snd res) = (if fst append = None then nv else v) \<and>
            (nv \<noteq> v \<longrightarrow> (stVersion (snd res) = nv \<longleftrightarrow> fst append = None)) \<and>
            (fst append \<noteq> None \<longrightarrow> snd res = snd append)"
proof -
  define nv where "nv = spawn ops (stVersion s) r"
  define append where
    "append = (if manifest s = None then newManifest ops s r nv else flushManifest ops s r)"
  have kept: "stVersion (snd append) = stVersion s"
    unfolding append_def using new_frame flush_frame by simp
  have res: "commit ops s r =
      (if fst append = None then (fst append, setVersion (snd append) nv)
       else (fst append, snd append))"
    by (auto simp add: commit_def version_NB_def nv_def append_def Let_def split_beta)
  show ?thesis
    unfolding Let_def nv_def[symmetric] append_def[symmetric] res
    using kept by (simp add: setVersion_def)
qed

theorem commit_publishes_iff_append_succeeds_witness:
  "fst (commit (ops0 None) (ses1 None) rAdd) = None \<and>
   stVersion (snd (commit (ops0 None) (ses1 None) rAdd)) = spawn0 ver1 rAdd \<and>
   spawn0 ver1 rAdd \<noteq> ver1 \<and>
   fst (commit (ops0 (Some (ErrorString ''disk full''))) (ses1 None) rAdd) =
     Some (ErrorString ''disk full'') \<and>
   stVersion (snd (commit (ops0 (Some (ErrorString ''disk full''))) (ses1 None) rAdd)) = ver1"
proof -
  have new_frame: "\<And>e s r v. stVersion (snd (newManifest (ops0 e) s r v)) = stVersion s"
    by (simp add: ops0_def split: option.split)
  have flush_frame: "\<And>e s r. stVersion (snd (flushManifest (ops0 e) s r)) = stVersion s"
    by (simp add: ops0_def)
  have sel: "manifest (ses1 None) = Some 1" "stVersion (ses1 None) = ver1"
    by (simp_all add: ses1_def)
  have ops: "\<And>e. spawn (ops0 e) = spawn0" "\<And>e s r. fst (flushManifest (ops0 e) s r) = e"
    by (simp_all add: ops0_def)
  have changed: "spawn0 ver1 rAdd \<noteq> ver1"
    by (simp add: spawn0_def ver1_def rAdd_def emptyRecord_def enumerate_eq_zip upt_rec
          version.ext_inject)
  show ?thesis
    using commit_publishes_iff_append_succeeds
            [where ops = "ops0 None" and s = "ses1 None" and r = rAdd, OF new_frame flush_frame]
          commit_publishes_iff_append_succeeds
            [where ops = "ops0 (Some (ErrorString ''disk full''))" and s = "ses1 None" and r = rAdd,
             OF new_frame flush_frame]
          changed
    by (simp add: Let_def sel ops flush_frame)
qed

subsection \<open>trivial\<close>

lemma unat_sum_list:
  "unat (sum_list (map f xs) :: 64 word) = (\<Sum>x\<leftarrow>xs. unat (f x)) mod 2 ^ 64"
  by (induction xs) (simp_all add: unat_word_ariths mod_simps)

text \<open>
  C7, as stated, asks for a grandparent overlap below the ceiling. It fails for a job
  with one input file, no parent file and a grandparent overlap equal to the ceiling:
  trivial is true there.
\<close>

theorem trivial_below_ceiling_counterexample:
  "\<not> (trivial p0 cMove \<longleftrightarrow>
        length (fst (ctables cMove)) = 1 \<and> length (snd (ctables cMove)) = 0 \<and>
        size_tFiles (gp cMove) < kMaxGrandParentOverlapBytes p0)"
  by (simp add: trivial_def cMove_def newCompaction_def p0_def size_tFiles_def mkFile_def)

text \<open>
  C7 (amended). For every compaction job, trivial is true if and only if the job has
  exactly one level-L input file, no level-L+1 input file, and a total grandparent
  overlap (the 64-bit sum of the grandparent sizes) of at most the ceiling; changing
  any one of the three makes it false.
\<close>

theorem trivial_iff_at_most_ceiling:
  "trivial p c \<longleftrightarrow>
     (\<exists>t. fst (ctables c) = [t]) \<and> snd (ctables c) = [] \<and>
     (\<Sum>g\<leftarrow>gp c. unat (size_bytes g)) mod 2 ^ 64 \<le> unat (kMaxGrandParentOverlapBytes p)"
proof -
  have one: "length (fst (ctables c)) = 1 \<longleftrightarrow> (\<exists>t. fst (ctables c) = [t])"
    by (cases "fst (ctables c)") auto
  have le: "size_tFiles (gp c) \<le> kMaxGrandParentOverlapBytes p \<longleftrightarrow>
      (\<Sum>g\<leftarrow>gp c. unat (size_bytes g)) mod 2 ^ 64 \<le> unat (kMaxGrandParentOverlapBytes p)"
    by (simp add: size_tFiles_def word_le_nat_alt unat_sum_list)
  show ?thesis
    unfolding trivial_def one le by simp
qed

subsection \<open>shouldStopBefore\<close>

lemma gpLoop_eq:
  "gpLoop icmp key c =
     c\<lparr>overlappedBytes :=
         overlappedBytes c + (if seenKey c then size_tFiles (passed icmp key c) else 0),
       gpidx := gpidx c + length (passed icmp key c)\<rparr>"
proof (induction icmp key c rule: gpLoop.induct)
  case (1 icmp key c)
  show ?case
  proof (cases "gpidx c < length (gp c)")
    case False
    then show ?thesis by (subst gpLoop.simps) (simp add: passed_def size_tFiles_def)
  next
    case True
    then have dr: "drop (gpidx c) (gp c) = gp c ! gpidx c # drop (Suc (gpidx c)) (gp c)"
      by (simp add: Cons_nth_drop_Suc)
    show ?thesis
    proof (cases "Compare_i icmp key (max_key (gp c ! gpidx c)) \<le> 0")
      case stop: True
      with True show ?thesis
        by (subst gpLoop.simps) (simp add: passed_def dr size_tFiles_def)
    next
      case go: False
      from "1.IH"[OF True refl go] True go show ?thesis
        by (subst gpLoop.simps) (simp add: passed_def dr size_tFiles_def Let_def)
    qed
  qed
qed

lemma passed_again:
  "passed icmp key
     (c\<lparr>gpidx := gpidx c + length (passed icmp key c), seenKey := b, overlappedBytes := w\<rparr>) = []"
proof -
  let ?P = "\<lambda>g. 0 < Compare_i icmp key (max_key g)"
  let ?xs = "drop (gpidx c) (gp c)"
  have "drop (gpidx c + length (takeWhile ?P ?xs)) (gp c) = dropWhile ?P ?xs"
    by (metis add.commute drop_drop dropWhile_eq_drop)
  moreover have "takeWhile ?P (dropWhile ?P ?xs) = []"
    by (metis (mono_tags, lifting) hd_dropWhile takeWhile_eq_Nil_iff)
  ultimately show ?thesis by (simp add: passed_def)
qed

text \<open>
  C6. A call of shouldStopBefore advances the cursor over the grandparent files it
  passes: each of them has a maximum key strictly below the queried key. Their sizes
  are added to the overlap counter only when a key has been seen before. The call
  returns true exactly when the counter so accumulated exceeds the ceiling, and then
  leaves the counter at zero, so that the next call, for any key, returns true only
  if the files it passes exceed the ceiling by themselves; otherwise the call returns
  false and keeps the accumulated counter. After any call, asking again for the same
  key returns false: a crossing is reported once.
\<close>

theorem shouldStopBefore_overlap_budget:
  "let ps = passed icmp key c;
       acc = overlappedBytes c + (if seenKey c then size_tFiles ps else 0);
       r = shouldStopBefore p icmp c key
   in (\<forall>g \<in> set ps. 0 < Compare_i icmp key (max_key g)) \<and>
      fst r = (kMaxGrandParentOverlapBytes p < acc) \<and>
      snd r = c\<lparr>gpidx := gpidx c + length ps, seenKey := True,
                 overlappedBytes := (if kMaxGrandParentOverlapBytes p < acc then 0 else acc)\<rparr> \<and>
      (fst r \<longrightarrow> overlappedBytes (snd r) = 0 \<and>
         (\<forall>key'. fst (shouldStopBefore p icmp (snd r) key') =
            (kMaxGrandParentOverlapBytes p < size_tFiles (passed icmp key' (snd r))))) \<and>
      fst (shouldStopBefore p icmp (snd r) key) = False"
proof -
  define ps where "ps = passed icmp key c"
  define acc where "acc = overlappedBytes c + (if seenKey c then size_tFiles ps else 0)"
  define r where "r = shouldStopBefore p icmp c key"
  define K where "K = kMaxGrandParentOverlapBytes p"
  have counted: "\<forall>g \<in> set ps. 0 < Compare_i icmp key (max_key g)"
    unfolding ps_def passed_def by (auto dest: set_takeWhileD)
  have r_eq: "r = (K < acc, c\<lparr>gpidx := gpidx c + length ps, seenKey := True,
                 overlappedBytes := (if K < acc then 0 else acc)\<rparr>)"
    unfolding r_def shouldStopBefore_def gpLoop_eq K_def acc_def ps_def
    by (simp add: Let_def)
  have again: "passed icmp key (snd r) = []"
    unfolding r_eq ps_def by (simp add: passed_again)
  have same: "fst (shouldStopBefore p icmp (snd r) key) = False"
    unfolding shouldStopBefore_def gpLoop_eq again
    by (simp add: Let_def r_eq size_tFiles_def K_def[symmetric] not_less)
  have fresh: "fst (shouldStopBefore p icmp (snd r) key') =
      (K < size_tFiles (passed icmp key' (snd r)))" if "fst r" for key'
    using that unfolding shouldStopBefore_def gpLoop_eq
    by (simp add: Let_def r_eq K_def[symmetric])
  from counted r_eq same fresh show ?thesis
    unfolding ps_def[symmetric] acc_def[symmetric] r_def[symmetric] K_def[symmetric] Let_def
    by simp
qed

theorem shouldStopBefore_overlap_budget_witness:
  "fst (shouldStopBefore p0 icmp0 cStop (Some ''g'')) \<and>
   gpidx (snd (shouldStopBefore p0 icmp0 cStop (Some ''g''))) = 2 \<and>
   overlappedBytes (snd (shouldStopBefore p0 icmp0 cStop (Some ''g''))) = 0 \<and>
   \<not> fst (shouldStopBefore p0 icmp0 (snd (shouldStopBefore p0 icmp0 cStop (Some ''g'')))
          (Some ''g''))"
proof -
  have ps: "passed icmp0 (Some ''g'') cStop =
      [mkFile 7 12582912 ''a'' ''c'', mkFile 8 9437184 ''d'' ''f'']"
    by (simp add: passed_def cStop_def newCompaction_def icmp0_def bytewise_def slice_def
          mkFile_def)
  have sel: "overlappedBytes cStop = 0" "seenKey cStop" "gpidx cStop = 0"
    by (simp_all add: cStop_def newCompaction_def)
  have K: "kMaxGrandParentOverlapBytes p0 = 20971520"
    by (simp add: p0_def)
  show ?thesis
    using shouldStopBefore_overlap_budget [of icmp0 "Some ''g''" cStop p0]
    by (auto simp add: Let_def ps sel K size_tFiles_def mkFile_def)
qed

subsection \<open>pickCompaction\<close>

lemma pickLoop_find:
  "pickLoop icmp cp tt = (case List.find (beyond icmp cp) tt of None \<Rightarrow> [] | Some t \<Rightarrow> [t])"
  by (induction tt) (simp_all add: beyond_def)

lemma pickInput_score:
  assumes "1 \<le> cScore (stVersion s)"
    and "index (stCPtrs s) (cLevel (stVersion s)) = Inr cp"
    and "index (tables (stVersion s)) (cLevel (stVersion s)) = Inr tt"
  shows "pickInput s =
     (case List.find (beyond (cmp s) cp) tt of
        Some t \<Rightarrow> Inr (Some (cLevel (stVersion s), [t]))
      | None \<Rightarrow> (case tt of [] \<Rightarrow> Inl IndexOutOfRange
                 | t # _ \<Rightarrow> Inr (Some (cLevel (stVersion s), [t]))))"
  using assms
  by (cases tt) (simp_all add: pickInput_def version_NB_def Let_def pickLoop_find index_def
       split: option.split)

lemma pickCompaction_of_input:
  assumes "pickInput s = Inr (Some (lvl, t0))" and "lvl \<noteq> 0"
  shows "fst (pickCompaction p ops s) =
     (case expand p ops (cmp s) ((newCompaction p (stVersion s) lvl)\<lparr>ctables := (t0, [])\<rparr>) of
        Inl e \<Rightarrow> Inl e | Inr c' \<Rightarrow> Inr (Some c'))"
  using assms by (simp add: pickCompaction_def Let_def version_NB_def newCompaction_def)

lemma icmp0_eval:
  "Compare_i icmp0 (Some a) (Some b) = bytes_Compare a b"
  by (simp add: icmp0_def bytewise_def slice_def)

text \<open>
  C2. For every version whose score is at least 1 and whose candidate level holds a
  non-empty file list, the initial input of pickCompaction is a single file of the
  level: when some file's maximum key compares strictly greater than the level's
  compaction pointer (or the pointer is unset), it is the first such file in level
  order, and otherwise it is the first file of the level (wrap-around). With an unset
  pointer it is the first file. At a level other than 0 this file is the level input
  that pickCompaction hands to expand.
\<close>

theorem pickCompaction_initial_input:
  assumes score: "1 \<le> cScore (stVersion s)"
    and cp: "index (stCPtrs s) (cLevel (stVersion s)) = Inr cp"
    and tt: "index (tables (stVersion s)) (cLevel (stVersion s)) = Inr tt"
    and files: "tt \<noteq> []"
  shows "\<exists>i<length tt.
           pickInput s = Inr (Some (cLevel (stVersion s), [tt ! i])) \<and>
           (if \<exists>t \<in> set tt. beyond (cmp s) cp t
            then beyond (cmp s) cp (tt ! i) \<and> (\<forall>j<i. \<not> beyond (cmp s) cp (tt ! j))
            else i = 0) \<and>
           (cp = None \<longrightarrow> i = 0) \<and>
           (cLevel (stVersion s) \<noteq> 0 \<longrightarrow>
              fst (pickCompaction p ops s) =
                (case expand p ops (cmp s)
                        ((newCompaction p (stVersion s) (cLevel (stVersion s)))
                           \<lparr>ctables := ([tt ! i], [])\<rparr>) of
                   Inl e \<Rightarrow> Inl e | Inr c' \<Rightarrow> Inr (Some c')))"
proof (cases "List.find (beyond (cmp s) cp) tt")
  case None
  then have none: "\<not> (\<exists>t \<in> set tt. beyond (cmp s) cp t)"
    by (simp add: find_None_iff)
  from files obtain t ts where tt_eq: "tt = t # ts"
    by (cases tt) auto
  have inp: "pickInput s = Inr (Some (cLevel (stVersion s), [tt ! 0]))"
    using pickInput_score[OF score cp tt] None by (simp add: tt_eq)
  have unset: "cp \<noteq> None"
    using none by (auto simp add: beyond_def tt_eq)
  show ?thesis
  proof (intro exI[of _ 0] conjI impI)
    show "0 < length tt" using files by simp
    show "pickInput s = Inr (Some (cLevel (stVersion s), [tt ! 0]))" by (rule inp)
    show "if \<exists>t \<in> set tt. beyond (cmp s) cp t
          then beyond (cmp s) cp (tt ! 0) \<and> (\<forall>j<0. \<not> beyond (cmp s) cp (tt ! j))
          else (0::nat) = 0"
      using none by simp
    show "(0::nat) = 0" by simp
    assume "cLevel (stVersion s) \<noteq> 0"
    then show "fst (pickCompaction p ops s) =
        (case expand p ops (cmp s)
                ((newCompaction p (stVersion s) (cLevel (stVersion s)))
                   \<lparr>ctables := ([tt ! 0], [])\<rparr>) of
           Inl e \<Rightarrow> Inl e | Inr c' \<Rightarrow> Inr (Some c'))"
      by (rule pickCompaction_of_input[OF inp])
  qed
next
  case (Some t)
  then obtain i where i: "i < length tt" "beyond (cmp s) cp (tt ! i)" "t = tt ! i"
      "\<forall>j<i. \<not> beyond (cmp s) cp (tt ! j)"
    by (auto simp add: find_Some_iff)
  have inp: "pickInput s = Inr (Some (cLevel (stVersion s), [tt ! i]))"
    using pickInput_score[OF score cp tt] Some i(3) by simp
  have ex: "\<exists>t \<in> set tt. beyond (cmp s) cp t"
    using i(1,2) by (auto intro: nth_mem)
  have first: "cp = None \<longrightarrow> i = 0"
  proof
    assume "cp = None"
    then have "beyond (cmp s) cp (tt ! 0)" by (simp add: beyond_def)
    with i(4) show "i = 0" by (cases i) auto
  qed
  show ?thesis
  proof (intro exI[of _ i] conjI impI)
    show "i < length tt" by (rule i(1))
    show "pickInput s = Inr (Some (cLevel (stVersion s), [tt ! i]))" by (rule inp)
    show "if \<exists>t \<in> set tt. beyond (cmp s) cp t
          then beyond (cmp s) cp (tt ! i) \<and> (\<forall>j<i. \<not> beyond (cmp s) cp (tt ! j))
          else i = 0"
      using ex i(2,4) by simp
    assume "cp = None" then show "i = 0" using first by simp
  next
    assume "cLevel (stVersion s) \<noteq> 0"
    then show "fst (pickCompaction p ops s) =
        (case expand p ops (cmp s)
                ((newCompaction p (stVersion s) (cLevel (stVersion s)))
                   \<lparr>ctables := ([tt ! i], [])\<rparr>) of
           Inl e \<Rightarrow> Inl e | Inr c' \<Rightarrow> Inr (Some c'))"
      by (rule pickCompaction_of_input[OF inp])
  qed
qed

theorem pickCompaction_initial_input_witness:
  "pickInput (ses1 (Some ''m'')) = Inr (Some (1, [mkFile 3 10 ''n'' ''z''])) \<and>
   pickInput (ses1 (Some ''zz'')) = Inr (Some (1, [mkFile 1 10 ''a'' ''f'']))"
proof -
  let ?tt = "[mkFile 1 10 ''a'' ''f'', mkFile 2 10 ''g'' ''m'', mkFile 3 10 ''n'' ''z'']"
  have score: "\<And>cp. 1 \<le> cScore (stVersion (ses1 cp))"
    and cp: "\<And>cp. index (stCPtrs (ses1 cp)) (cLevel (stVersion (ses1 cp))) = Inr cp"
    and tt: "\<And>cp. index (tables (stVersion (ses1 cp))) (cLevel (stVersion (ses1 cp))) = Inr ?tt"
    and files: "?tt \<noteq> []"
    by (simp_all add: ses1_def ver1_def index_def)
  have sel: "\<And>cp. cmp (ses1 cp) = icmp0" "\<And>cp. cLevel (stVersion (ses1 cp)) = 1"
    by (simp_all add: ses1_def ver1_def)
  have bm: "\<not> beyond icmp0 (Some ''m'') (?tt ! 0)" "\<not> beyond icmp0 (Some ''m'') (?tt ! 1)"
      "beyond icmp0 (Some ''m'') (?tt ! 2)"
    by (simp_all add: beyond_def icmp0_eval mkFile_def)
  have bz: "\<not> (\<exists>t \<in> set ?tt. beyond icmp0 (Some ''zz'') t)"
    by (simp add: beyond_def icmp0_eval mkFile_def)
  have ex: "\<exists>t \<in> set ?tt. beyond icmp0 (Some ''m'') t"
    using bm(3) by simp
  from pickCompaction_initial_input [OF score cp tt files, of "Some ''m''" p0 tops0]
  obtain i where i: "i < length ?tt" "pickInput (ses1 (Some ''m'')) = Inr (Some (1, [?tt ! i]))"
      "beyond icmp0 (Some ''m'') (?tt ! i)"
    unfolding sel if_P[OF ex] by blast
  from i(1,3) bm(1,2) have "i = 2"
    by (cases i; cases "i - 1") auto
  with i(2) have m: "pickInput (ses1 (Some ''m'')) = Inr (Some (1, [mkFile 3 10 ''n'' ''z'']))"
    by simp
  from pickCompaction_initial_input [OF score cp tt files, of "Some ''zz''" p0 tops0]
  have z: "pickInput (ses1 (Some ''zz'')) = Inr (Some (1, [mkFile 1 10 ''a'' ''f'']))"
    unfolding sel if_not_P[OF bz] by auto
  from m z show ?thesis by simp
qed

text \<open>
  C3, as stated, has pickCompaction clear the seek hint. On the session with a score
  below 1 and a hint, the hint is still there after the pick, and a second pick takes
  the same input again.
\<close>

theorem pickCompaction_seek_hint_counterexample:
  "cScore (stVersion sSeek) < 1 \<and> cSeek (stVersion sSeek) \<noteq> None \<and>
   cSeek (stVersion (snd (pickCompaction p0 tops0 sSeek))) \<noteq> None \<and>
   pickInput (snd (pickCompaction p0 tops0 sSeek)) = pickInput sSeek"
  by (simp add: pickCompaction_def Let_def sSeek_def ses1_def ver1_def)

text \<open>
  C3 (amended). Whenever pickCompaction runs on a version whose score is below 1 and
  whose seek hint slot is non-empty, it uses the hint's file and level as the sole
  initial input; it leaves the session and the hint slot as they were, so a repeated
  pick on the same version takes the same hint again.
\<close>

theorem pickCompaction_seek_hint_kept:
  assumes "cScore (stVersion s) < 1" and "cSeek (stVersion s) = Some ts"
  shows "pickInput s = Inr (Some (ts_level ts, [ts_table ts])) \<and>
         snd (pickCompaction p ops s) = s \<and>
         cSeek (stVersion (snd (pickCompaction p ops s))) = Some ts \<and>
         pickInput (snd (pickCompaction p ops s)) = Inr (Some (ts_level ts, [ts_table ts]))"
proof -
  have unchanged: "snd (pickCompaction p ops s) = s"
    by (simp add: pickCompaction_def Let_def)
  have "pickInput s = Inr (Some (ts_level ts, [ts_table ts]))"
    using assms by (simp add: pickInput_def version_NB_def Let_def)
  with unchanged assms(2) show ?thesis by simp
qed

theorem pickCompaction_seek_hint_kept_witness:
  "pickInput sSeek = Inr (Some (1, [mkFile 2 10 ''g'' ''m''])) \<and>
   snd (pickCompaction p0 tops0 sSeek) = sSeek"
proof -
  have sel: "cScore (stVersion sSeek) < 1"
      "cSeek (stVersion sSeek) = Some \<lparr>ts_level = 1, ts_table = mkFile 2 10 ''g'' ''m''\<rparr>"
    by (simp_all add: sSeek_def ses1_def ver1_def)
  show ?thesis
    using pickCompaction_seek_hint_kept[OF sel, of p0 tops0] by simp
qed

lemma expand_returns:
  assumes "0 \<le> level c" and "level c + 1 < int (length (tables (cversion c)))"
    and "kNumLevels p \<le> int (length (tables (cversion c)))"
  shows "\<exists>c'. expand p ops icmp c = Inr c' \<and> cversion c' = cversion c \<and> level c' = level c"
proof -
  have i0: "index (tables (cversion c)) (level c) = Inr (tables (cversion c) ! nat (level c))"
    and i1: "index (tables (cversion c)) (level c + 1) =
             Inr (tables (cversion c) ! nat (level c + 1))"
    using assms by (simp_all add: index_def)
  have i2: "level c + 2 < kNumLevels p \<Longrightarrow>
      index (tables (cversion c)) (level c + 2) = Inr (tables (cversion c) ! nat (level c + 2))"
    using assms by (simp add: index_def)
  show ?thesis
    by (cases "level c + 2 < kNumLevels p")
       (simp_all add: expand_def Let_def i0 i1 i2 split_beta)
qed

lemma pickInput_not_nil:
  assumes "1 \<le> cScore (stVersion s)"
  shows "pickInput s \<noteq> Inr None"
  using assms
  by (simp add: pickInput_def version_NB_def Let_def split: sum.split)

lemma pickCompaction_not_nil:
  assumes "pickInput s \<noteq> Inr None"
  shows "fst (pickCompaction p ops s) \<noteq> Inr None"
  using assms
  by (simp add: pickCompaction_def Let_def split_beta split: sum.split option.split)

lemma expand_panics:
  assumes "0 \<le> level c" and "\<not> level c + 1 < int (length (tables (cversion c)))"
  shows "expand p ops icmp c = Inl IndexOutOfRange"
  using assms by (simp add: expand_def Let_def index_def split: sum.split)

lemma pickCompaction_panics:
  assumes "pickInput s = Inl IndexOutOfRange"
  shows "fst (pickCompaction p ops s) = Inl IndexOutOfRange"
  using assms by (simp add: pickCompaction_def Let_def)

text \<open>
  C4, as stated, has pickCompaction return a compaction for every version whose score
  is at least 1. It panics instead, with an index out of range, on the session whose
  candidate level is the last level (expand reads the level below it) and on the one
  whose candidate level holds no file.
\<close>

theorem pickCompaction_returns_counterexample:
  "1 \<le> cScore (stVersion sLast) \<and>
   fst (pickCompaction p0 tops0 sLast) = Inl IndexOutOfRange \<and>
   1 \<le> cScore (stVersion sEmpty) \<and>
   fst (pickCompaction p0 tops0 sEmpty) = Inl IndexOutOfRange"
proof -
  have a: "pickInput sLast = Inr (Some (6, [mkFile 6 10 ''a'' ''f'']))"
    by (simp add: pickInput_def version_NB_def Let_def sLast_def ses1_def ver1_def index_def)
  have b: "expand p0 tops0 (cmp sLast)
      ((newCompaction p0 (stVersion sLast) 6)\<lparr>ctables := ([mkFile 6 10 ''a'' ''f''], [])\<rparr>) =
      Inl IndexOutOfRange"
    by (simp add: expand_def Let_def newCompaction_def sLast_def ses1_def ver1_def index_def)
  have c: "fst (pickCompaction p0 tops0 sLast) = Inl IndexOutOfRange"
    using pickCompaction_of_input[OF a, of p0 tops0] b by simp
  have d: "pickInput sEmpty = Inl IndexOutOfRange"
    by (simp add: pickInput_def version_NB_def Let_def sEmpty_def ses1_def ver1_def index_def)
  have e: "fst (pickCompaction p0 tops0 sEmpty) = Inl IndexOutOfRange"
    by (simp add: pickCompaction_def Let_def d)
  show ?thesis
    using c e by (simp add: sLast_def sEmpty_def ses1_def ver1_def)
qed

text \<open>
  C4 (amended). For every version whose score is at least 1, pickCompaction never
  returns the nil result. When the arrays have their \<open>kNumLevels\<close> entries, it returns
  a compaction (on that version and level) if the candidate level is a level with a
  level below it and holds a file, and it panics with an index out of range
  otherwise.
\<close>

theorem pickCompaction_never_nil:
  assumes score: "1 \<le> cScore (stVersion s)"
  shows "fst (pickCompaction p ops s) \<noteq> Inr None \<and>
         (length (tables (stVersion s)) = nat (kNumLevels p) \<and>
          length (stCPtrs s) = nat (kNumLevels p) \<and>
          0 \<le> cLevel (stVersion s) \<and> cLevel (stVersion s) + 1 < kNumLevels p \<and>
          tables (stVersion s) ! nat (cLevel (stVersion s)) \<noteq> [] \<longrightarrow>
          (\<exists>c. fst (pickCompaction p ops s) = Inr (Some c) \<and>
               cversion c = stVersion s \<and> level c = cLevel (stVersion s))) \<and>
         (length (tables (stVersion s)) = nat (kNumLevels p) \<and>
          length (stCPtrs s) = nat (kNumLevels p) \<and>
          \<not> (0 \<le> cLevel (stVersion s) \<and> cLevel (stVersion s) + 1 < kNumLevels p \<and>
             tables (stVersion s) ! nat (cLevel (stVersion s)) \<noteq> []) \<longrightarrow>
          fst (pickCompaction p ops s) = Inl IndexOutOfRange)"
proof (intro conjI impI)
  show "fst (pickCompaction p ops s) \<noteq> Inr None"
    by (rule pickCompaction_not_nil[OF pickInput_not_nil[OF score]])
next
  let ?v = "stVersion s"
  let ?l = "cLevel ?v"
  assume wf: "length (tables ?v) = nat (kNumLevels p) \<and> length (stCPtrs s) = nat (kNumLevels p) \<and>
      0 \<le> ?l \<and> ?l + 1 < kNumLevels p \<and> tables ?v ! nat ?l \<noteq> []"
  then have cp: "index (stCPtrs s) ?l = Inr (stCPtrs s ! nat ?l)"
    and tt: "index (tables ?v) ?l = Inr (tables ?v ! nat ?l)"
    and z: "index (tables ?v) 0 = Inr (tables ?v ! 0)"
    by (simp_all add: index_def)
  from pickInput_score[OF score cp tt] wf
  obtain t where inp: "pickInput s = Inr (Some (?l, [t]))"
    by (auto split: option.splits list.splits)
  define c0 where "c0 = newCompaction p ?v ?l"
  define t0 where "t0 = (if ?l = 0
      then getOverlaps ops (tables ?v ! 0)
             (ukey ops (fst (getRange ops [t] (cmp s)))) (ukey ops (snd (getRange ops [t] (cmp s))))
             [] False (ucmp (cmp s))
      else [t])"
  define c1 where "c1 = c0\<lparr>ctables := (t0, snd (ctables c0))\<rparr>"
  have c1: "cversion c1 = ?v" "level c1 = ?l"
    by (simp_all add: c1_def c0_def newCompaction_def)
  from wf have "\<exists>c'. expand p ops (cmp s) c1 = Inr c' \<and> cversion c' = cversion c1 \<and>
      level c' = level c1"
    by (intro expand_returns) (simp_all add: c1)
  then obtain c' where c': "expand p ops (cmp s) c1 = Inr c'" "cversion c' = ?v" "level c' = ?l"
    by (auto simp add: c1)
  have "fst (pickCompaction p ops s) = Inr (Some c')"
    using c'(1) unfolding c1_def c0_def t0_def
    by (cases "cLevel (stVersion s) = 0")
       (simp_all add: pickCompaction_def Let_def inp z version_NB_def split_beta)
  with c'(2,3) show "\<exists>c. fst (pickCompaction p ops s) = Inr (Some c) \<and>
      cversion c = ?v \<and> level c = ?l"
    by blast
next
  let ?v = "stVersion s"
  let ?l = "cLevel ?v"
  assume bad: "length (tables ?v) = nat (kNumLevels p) \<and> length (stCPtrs s) = nat (kNumLevels p) \<and>
      \<not> (0 \<le> ?l \<and> ?l + 1 < kNumLevels p \<and> tables ?v ! nat ?l \<noteq> [])"
  show "fst (pickCompaction p ops s) = Inl IndexOutOfRange"
  proof (cases "0 \<le> ?l \<and> ?l < kNumLevels p")
    case False
    with bad have "index (stCPtrs s) ?l = Inl IndexOutOfRange"
      by (auto simp add: index_def)
    with score have "pickInput s = Inl IndexOutOfRange"
      by (simp add: pickInput_def version_NB_def Let_def)
    then show ?thesis by (rule pickCompaction_panics)
  next
    case True
    with bad have cp: "index (stCPtrs s) ?l = Inr (stCPtrs s ! nat ?l)"
      and tt: "index (tables ?v) ?l = Inr (tables ?v ! nat ?l)"
      and z: "index (tables ?v) 0 = Inr (tables ?v ! 0)"
      by (simp_all add: index_def)
    show ?thesis
    proof (cases "tables ?v ! nat ?l = []")
      case empty: True
      with pickInput_score[OF score cp tt] have "pickInput s = Inl IndexOutOfRange"
        by (simp split: option.splits)
      then show ?thesis by (rule pickCompaction_panics)
    next
      case nonempty: False
      with bad True have last: "\<not> ?l + 1 < kNumLevels p"
        by simp
      from pickInput_score[OF score cp tt] nonempty
      obtain t where inp: "pickInput s = Inr (Some (?l, [t]))"
        by (auto split: option.splits list.splits)
      have ex: "expand p ops (cmp s) c = Inl IndexOutOfRange"
        if "cversion c = ?v" "level c = ?l" for c
        using that True last bad by (intro expand_panics) simp_all
      show ?thesis
        by (cases "?l = 0")
           (simp_all add: pickCompaction_def Let_def inp z version_NB_def split_beta ex
              newCompaction_def)
    qed
  qed
qed

theorem pickCompaction_never_nil_witness:
  "(\<exists>c. fst (pickCompaction p0 tops0 (ses1 (Some ''m''))) = Inr (Some c) \<and> level c = 1) \<and>
   fst (pickCompaction p0 tops0 sLast) = Inl IndexOutOfRange"
proof -
  have score: "1 \<le> cScore (stVersion (ses1 (Some ''m'')))"
    by (simp add: ses1_def ver1_def)
  have wf: "length (tables (stVersion (ses1 (Some ''m'')))) = nat (kNumLevels p0) \<and>
      length (stCPtrs (ses1 (Some ''m''))) = nat (kNumLevels p0) \<and>
      0 \<le> cLevel (stVersion (ses1 (Some ''m''))) \<and>
      cLevel (stVersion (ses1 (Some ''m''))) + 1 < kNumLevels p0 \<and>
      tables (stVersion (ses1 (Some ''m''))) ! nat (cLevel (stVersion (ses1 (Some ''m'')))) \<noteq> []"
    by (simp add: ses1_def ver1_def p0_def)
  have lvl: "cLevel (stVersion (ses1 (Some ''m''))) = 1"
    by (simp add: ses1_def ver1_def)
  have score': "1 \<le> cScore (stVersion sLast)"
    by (simp add: sLast_def ses1_def ver1_def)
  have bad: "length (tables (stVersion sLast)) = nat (kNumLevels p0) \<and>
      length (stCPtrs sLast) = nat (kNumLevels p0) \<and>
      \<not> (0 \<le> cLevel (stVersion sLast) \<and> cLevel (stVersion sLast) + 1 < kNumLevels p0 \<and>
         tables (stVersion sLast) ! nat (cLevel (stVersion sLast)) \<noteq> [])"
    by (simp add: sLast_def ses1_def ver1_def p0_def)
  from pickCompaction_never_nil[OF score, of p0 tops0] wf
  have a: "\<exists>c. fst (pickCompaction p0 tops0 (ses1 (Some ''m''))) = Inr (Some c) \<and> level c = 1"
    unfolding lvl by blast
  from pickCompaction_never_nil[OF score', of p0 tops0] bad
  have b: "fst (pickCompaction p0 tops0 sLast) = Inl IndexOutOfRange"
    by blast
  from a b show ?thesis by simp
qed

text \<open>
  C9. When the score is at least 1 and the candidate level indexes both arrays, the
  choice of the initial input panics with an index out of range exactly when the
  candidate level holds no file (the unguarded \<open>tt[0]\<close> of the wrap-around path),
  and then pickCompaction panics; a non-empty file list at the candidate level is the
  precondition of its safety.
\<close>

theorem pickCompaction_empty_level_panics:
  assumes score: "1 \<le> cScore (stVersion s)"
    and cp: "index (stCPtrs s) (cLevel (stVersion s)) = Inr cp"
    and tt: "index (tables (stVersion s)) (cLevel (stVersion s)) = Inr tt"
  shows "(pickInput s = Inl IndexOutOfRange \<longleftrightarrow> tt = []) \<and>
         (tt = [] \<longrightarrow> fst (pickCompaction p ops s) = Inl IndexOutOfRange)"
proof (cases tt)
  case Nil
  then have "pickInput s = Inl IndexOutOfRange"
    using pickInput_score[OF score cp tt] by simp
  then show ?thesis
    using Nil by (simp add: pickCompaction_def Let_def)
next
  case (Cons t ts)
  then show ?thesis
    using pickInput_score[OF score cp tt] by (simp split: option.split)
qed

theorem pickCompaction_empty_level_panics_witness:
  "pickInput sEmpty = Inl IndexOutOfRange \<and>
   fst (pickCompaction p0 tops0 sEmpty) = Inl IndexOutOfRange"
proof -
  have sel: "1 \<le> cScore (stVersion sEmpty)"
      "index (stCPtrs sEmpty) (cLevel (stVersion sEmpty)) = Inr None"
      "index (tables (stVersion sEmpty)) (cLevel (stVersion sEmpty)) = Inr []"
    by (simp_all add: sEmpty_def ses1_def ver1_def index_def)
  show ?thesis
    using pickCompaction_empty_level_panics[OF sel, of p0 tops0] by simp
qed

subsection \<open>expand\<close>

text \<open>
  C5. When expand returns, its level-L input set is either the original set or the
  wider set \<open>exp0\<close> computed once from the range of the original inputs and their
  parents. It is \<open>exp0\<close> (with the parents recomputed over the range of \<open>exp0\<close>)
  exactly when the parent set is non-empty, \<open>exp0\<close> has strictly more files than the
  original set, the 64-bit byte size of the parent set plus that of \<open>exp0\<close> is below
  the expansion ceiling, and the recomputed parent set has as many files as the
  parent set; the conditions are evaluated once, on the original sets.
\<close>

theorem expand_grows_once:
  assumes vt0: "index (tables (cversion c)) (level c) = Inr vt0"
    and vt1: "index (tables (cversion c)) (level c + 1) = Inr vt1"
    and ret: "expand p ops icmp c = Inr c'"
  shows "let t0 = fst (ctables c);
             r = getRange ops t0 icmp;
             t1 = getOverlaps ops vt1 (ukey ops (fst r)) (ukey ops (snd r)) (snd (ctables c))
                    True (ucmp icmp);
             a = getRange ops (t0 @ t1) icmp;
             exp0 = getOverlaps ops vt0 (ukey ops (fst a)) (ukey ops (snd a)) [] (level c \<noteq> 0)
                      (ucmp icmp);
             x = getRange ops exp0 icmp;
             exp1 = getOverlaps ops vt1 (ukey ops (fst x)) (ukey ops (snd x)) [] True (ucmp icmp);
             grow = (t1 \<noteq> [] \<and> length t0 < length exp0 \<and>
                     size_tFiles t1 + size_tFiles exp0 < kExpCompactionMaxBytes p \<and>
                     length exp1 = length t1)
         in ctables c' = (if grow then (exp0, exp1) else (t0, t1)) \<and>
            (cmin c', cmax c') = (if grow then x else r)"
proof -
  define t0 where "t0 = fst (ctables c)"
  define r where "r = getRange ops t0 icmp"
  define t1 where "t1 = getOverlaps ops vt1 (ukey ops (fst r)) (ukey ops (snd r))
      (snd (ctables c)) True (ucmp icmp)"
  define a where "a = getRange ops (t0 @ t1) icmp"
  define exp0 where "exp0 = getOverlaps ops vt0 (ukey ops (fst a)) (ukey ops (snd a)) []
      (level c \<noteq> 0) (ucmp icmp)"
  define x where "x = getRange ops exp0 icmp"
  define exp1 where "exp1 = getOverlaps ops vt1 (ukey ops (fst x)) (ukey ops (snd x)) [] True
      (ucmp icmp)"
  define grow where "grow \<longleftrightarrow> t1 \<noteq> [] \<and> length t0 < length exp0 \<and>
      size_tFiles t1 + size_tFiles exp0 < kExpCompactionMaxBytes p \<and> length exp1 = length t1"
  note defs = t0_def r_def t1_def a_def exp0_def x_def exp1_def
  have "ctables c' = (if grow then (exp0, exp1) else (t0, t1)) \<and>
        (cmin c', cmax c') = (if grow then x else r)"
  proof (cases grow)
    case True
    with ret show ?thesis
      unfolding grow_def defs
      by (auto simp add: expand_def vt0 vt1 Let_def split_beta split: if_splits sum.splits)
  next
    case False
    with ret show ?thesis
      unfolding grow_def defs
      by (auto simp add: expand_def vt0 vt1 Let_def split_beta split: if_splits sum.splits)
  qed
  then show ?thesis
    unfolding Let_def grow_def defs .
qed

theorem expand_grows_once_witness:
  "\<exists>c'. expand p0 tops0 icmp0 cGrow = Inr c' \<and>
        ctables c' = ([mkFile 1 10 ''a'' ''c'', mkFile 2 10 ''d'' ''f''], [mkFile 4 10 ''b'' ''e'']) \<and>
        cmin c' = Some ''a'' \<and> cmax c' = Some ''f''"
proof -
  let ?vt0 = "[mkFile 1 10 ''a'' ''c'', mkFile 2 10 ''d'' ''f'', mkFile 3 10 ''n'' ''z'']"
  let ?vt1 = "[mkFile 4 10 ''b'' ''e'']"
  have vt0: "index (tables (cversion cGrow)) (level cGrow) = Inr ?vt0"
    and vt1: "index (tables (cversion cGrow)) (level cGrow + 1) = Inr ?vt1"
    by (simp_all add: cGrow_def newCompaction_def ver2_def index_def)
  have "\<exists>c'. expand p0 tops0 icmp0 cGrow = Inr c' \<and> cversion c' = cversion cGrow \<and>
      level c' = level cGrow"
    by (rule expand_returns) (simp_all add: cGrow_def newCompaction_def ver2_def p0_def)
  then obtain c' where ret: "expand p0 tops0 icmp0 cGrow = Inr c'"
    by blast
  have sel: "fst (ctables cGrow) = [mkFile 1 10 ''a'' ''c'']" "snd (ctables cGrow) = []"
      "level cGrow = 1"
    by (simp_all add: cGrow_def newCompaction_def)
  have ops: "ukey tops0 = (\<lambda>k. k)" "getRange tops0 = getRange0" "getOverlaps tops0 = getOverlaps0"
      "ucmp icmp0 = bytewise" "kExpCompactionMaxBytes p0 = 52428800"
    by (simp_all add: tops0_def icmp0_def p0_def)
  have cmp: "\<And>a b. Compare bytewise (Some a) (Some b) = bytes_Compare a b"
    by (simp add: bytewise_def slice_def)
  have "ctables c' = ([mkFile 1 10 ''a'' ''c'', mkFile 2 10 ''d'' ''f''], [mkFile 4 10 ''b'' ''e'']) \<and>
        (cmin c', cmax c') = (Some ''a'', Some ''f'')"
    using expand_grows_once [OF vt0 vt1 ret]
    by (simp add: Let_def sel ops getOverlaps0_def icmp0_eval cmp mkFile_def size_tFiles_def)
  with ret show ?thesis by simp
qed

subsection \<open>recover\<close>

text \<open>
  C8. Whenever recover finds no manifest file (GetManifest fails with a not-exist
  error), it leaves the session alone and returns the manifest-missing error wrapped
  as ErrManifest if the storage lists any file, and the plain not-exist error
  otherwise.
\<close>

theorem recover_manifest_missing:
  assumes "GetManifest (stor s) = Inl e" and "IsNotExist (Some e)"
  shows "recover ops s =
     (Returned (Some (if fst (GetFiles (stor s) TypeAll) \<noteq> []
                      then ErrManifest (ErrorString ''leveldb: manifest file missing'')
                      else e)), s)"
  using assms by (simp add: recover_def recoverBody_def split_beta)

theorem recover_manifest_missing_witness:
  "recover (ops0 None) sFiles =
     (Returned (Some (ErrManifest (ErrorString ''leveldb: manifest file missing''))), sFiles) \<and>
   recover (ops0 None) (ses1 None) = (Returned (Some (NotExist ''MANIFEST'')), ses1 None)"
proof -
  have a: "GetManifest (stor sFiles) = Inl (NotExist ''MANIFEST'')"
      "GetManifest (stor (ses1 None)) = Inl (NotExist ''MANIFEST'')"
      "IsNotExist (Some (NotExist ''MANIFEST''))"
    by (simp_all add: sFiles_def ses1_def stor0_def)
  have files: "fst (GetFiles (stor sFiles) TypeAll) \<noteq> []" "fst (GetFiles (stor (ses1 None)) TypeAll) = []"
    by (simp_all add: sFiles_def ses1_def stor0_def)
  show ?thesis
    using recover_manifest_missing [OF a(1) a(3), of "ops0 None"]
          recover_manifest_missing [OF a(2) a(3), of "ops0 None"]
    by (simp add: files)
qed

lemma saveCPtrs_frame:
  "saveCPtrs rps s = (r, s') \<Longrightarrow> s' = s\<lparr>stCPtrs := stCPtrs s'\<rparr>"
  by (induction rps s rule: saveCPtrs.induct) (auto split: if_splits)

lemma replay_frame:
  "replay ops strict js s st rec = (out, s', st', rec') \<Longrightarrow> s' = s\<lparr>stCPtrs := stCPtrs s'\<rparr>"
proof (induction ops strict js s st rec rule: replay.induct)
  case (1 ops strict s st rec)
  then show ?case by simp
next
  case (2 ops strict e js s st rec)
  then show ?case by (simp split: if_splits)
next
  case (3 ops strict r js s st rec)
  obtain rec1 err where dec: "decode ops rec r = (rec1, err)"
    by (cases "decode ops rec r")
  show ?case
  proof (cases err)
    case None
    obtain pn s1 where sv: "saveCPtrs (compactionPointers rec1) s = (pn, s1)"
      by (cases "saveCPtrs (compactionPointers rec1) s")
    note fr = saveCPtrs_frame[OF sv]
    show ?thesis
    proof (cases pn)
      case None': None
      from "3.IH"(1)[OF dec[symmetric] None sv[symmetric] None'] "3.prems"
      have "s' = s1\<lparr>stCPtrs := stCPtrs s'\<rparr>"
        by (simp add: dec None sv None')
      with fr show ?thesis
        by (metis session.surjective session.update_convs(10))
    next
      case (Some a)
      with "3.prems" fr show ?thesis
        by (simp add: dec None sv)
    qed
  next
    case (Some e)
    show ?thesis
    proof (cases strict)
      case True
      with "3.prems" show ?thesis by (simp add: dec Some)
    next
      case False
      from "3.IH"(2)[OF dec[symmetric] Some False] "3.prems" show ?thesis
        by (simp add: dec Some False)
    qed
  qed
qed


lemma recover_of_body:
  "snd (recover ops s) = snd (recoverBody ops s)"
  "fst (recover ops s) = Returned None \<longleftrightarrow> fst (recoverBody ops s) = Returned None"
  by (auto simp add: recover_def split_beta split: outcome.splits prod.splits if_splits
      elim: IsNotExist.elims)

lemma recoverBody_frame:
  assumes "fst (recoverBody ops s) \<noteq> Returned None"
  shows "snd (recoverBody ops s) = s\<lparr>stCPtrs := stCPtrs (snd (recoverBody ops s))\<rparr>"
proof (cases "GetManifest (stor s)")
  case (Inl e)
  then show ?thesis by (simp add: recoverBody_def)
next
  case mf: (Inr f)
  show ?thesis
  proof (cases "Open (stor s) f")
    case (Inl e)
    with mf show ?thesis by (simp add: recoverBody_def)
  next
    case rd: (Inr rd)
    obtain out s1 st1 rec1 where rp:
      "replay ops (strictManifest s) (journalNext ops rd (strictManifest s)) s
         (newStaging ops (version_NB s)) emptyRecord = (out, s1, st1, rec1)"
      by (metis prod_cases4)
    note fr = replay_frame[OF rp]
    show ?thesis
    proof (cases out)
      case None
      with assms mf rd rp have "snd (recoverBody ops s) = s1"
        by (auto simp add: recoverBody_def Let_def split: option.splits)
      with fr show ?thesis by simp
    next
      case (Some a)
      with mf rd rp have "snd (recoverBody ops s) = s1"
        by (simp add: recoverBody_def Let_def)
      with fr show ?thesis by simp
    qed
  qed
qed

lemma length_foldl_store: "length (foldl store a ps) = length a"
  by (induction ps arbitrary: a) (simp_all add: store_def)

lemma store_nth_eq: "l < length a \<Longrightarrow> cp_level x = int l \<Longrightarrow> store a x ! l = cp_key x"
  by (simp add: store_def)

lemma store_nth_neq: "nat (cp_level x) \<noteq> l \<Longrightarrow> store a x ! l = a ! l"
  by (simp add: store_def)

lemma foldl_store_nth:
  assumes "list_all (inRange (length a)) ps" and "l < length a"
  shows "foldl store a ps ! l =
     (case List.find (\<lambda>rp. cp_level rp = int l) (rev ps) of
        None \<Rightarrow> a ! l | Some rp \<Rightarrow> cp_key rp)"
  using assms
proof (induction ps rule: rev_induct)
  case Nil
  then show ?case by simp
next
  case (snoc x xs)
  then have x: "0 \<le> cp_level x" and IH: "foldl store a xs ! l =
      (case List.find (\<lambda>rp. cp_level rp = int l) (rev xs) of None \<Rightarrow> a ! l | Some rp \<Rightarrow> cp_key rp)"
    by (simp_all add: inRange_def)
  show ?case
  proof (cases "cp_level x = int l")
    case True
    with snoc.prems show ?thesis
      by (simp add: store_nth_eq length_foldl_store)
  next
    case False
    with x have "nat (cp_level x) \<noteq> l" by auto
    with False IH show ?thesis
      by (simp add: store_nth_neq)
  qed
qed

lemma saveCPtrs_inRange:
  "list_all (inRange (length (stCPtrs s))) ps \<Longrightarrow>
     saveCPtrs ps s = (None, s\<lparr>stCPtrs := foldl store (stCPtrs s) ps\<rparr>)"
  by (induction ps arbitrary: s) (simp_all add: inRange_def store_def)

lemma replay_complete:
  assumes "strict \<longrightarrow> allDecode ops rec chunks"
    and "list_all (inRange (length (stCPtrs s))) (decodedPointers ops rec chunks)"
  shows "\<exists>st' rec'. replay ops strict (map Inr chunks) s st rec =
     (None, s\<lparr>stCPtrs := foldl store (stCPtrs s) (decodedPointers ops rec chunks)\<rparr>, st', rec')"
  using assms
proof (induction chunks arbitrary: s st rec)
  case Nil
  then show ?case by simp
next
  case (Cons r rs)
  obtain rec1 err where dec: "decode ops rec r = (rec1, err)"
    by (cases "decode ops rec r")
  let ?rec2 = "resetDeletedTables (resetAddedTables (resetCompactionPointers rec1))"
  show ?case
  proof (cases err)
    case None
    let ?s1 = "s\<lparr>stCPtrs := foldl store (stCPtrs s) (compactionPointers rec1)\<rparr>"
    from Cons.prems(2) have r1: "list_all (inRange (length (stCPtrs s))) (compactionPointers rec1)"
      and r2: "list_all (inRange (length (stCPtrs ?s1))) (decodedPointers ops ?rec2 rs)"
      by (simp_all add: dec None length_foldl_store)
    from Cons.prems(1) have a: "strict \<longrightarrow> allDecode ops ?rec2 rs"
      by (simp add: dec)
    from Cons.IH[OF a r2, of "staging_commit ops st rec1"]
    show ?thesis
      by (simp add: dec None saveCPtrs_inRange[OF r1])
  next
    case (Some e)
    from Cons.prems(1) have lenient: "\<not> strict"
      by (auto simp add: dec Some)
    then have a: "strict \<longrightarrow> allDecode ops ?rec2 rs" by simp
    from Cons.prems(2) have r2: "list_all (inRange (length (stCPtrs s))) (decodedPointers ops ?rec2 rs)"
      by (simp add: dec Some)
    from Cons.IH[OF a r2, of st]
    show ?thesis
      by (simp add: dec Some lenient)
  qed
qed

lemma validate_frame: "validate (s\<lparr>stCPtrs := a\<rparr>) rec = validate s rec"
  by (simp add: validate_def)

lemma validate_not_NotExist: "\<not> IsNotExist (validate s rec)"
  by (simp add: validate_def)

text \<open>
  C10. recover is not atomic on the session. Every outcome other than success (an
  error or a panic) leaves the current version and the file-number counter as they
  were: at most the compaction pointers differ from the session before the call. And
  when the journal reader yields its chunks without error, a strict replay meets no
  decode error and every decoded pointer names a level of the pointer array, recover
  returns what the validation after the replay returns, and the pointer array of the
  session after it, whether that validation succeeds or fails, is the array before
  it with the pointer of every decoded record stored at its level, in replay order:
  each level holds the key of the last pointer decoded for it, and its old key when
  there is none.
\<close>

theorem recover_not_atomic:
  "(fst (recover ops s) \<noteq> Returned None \<longrightarrow>
      stVersion (snd (recover ops s)) = stVersion s \<and>
      stFileNum (snd (recover ops s)) = stFileNum s \<and>
      snd (recover ops s) = s\<lparr>stCPtrs := stCPtrs (snd (recover ops s))\<rparr>) \<and>
   (GetManifest (stor s) = Inr file \<and> Open (stor s) file = Inr rd \<and>
    journalNext ops rd (strictManifest s) = map Inr chunks \<and>
    (strictManifest s \<longrightarrow> allDecode ops emptyRecord chunks) \<and>
    list_all (inRange (length (stCPtrs s))) (decodedPointers ops emptyRecord chunks) \<longrightarrow>
      (\<exists>rec'. fst (recover ops s) = Returned (validate s rec')) \<and>
      stCPtrs (snd (recover ops s)) =
        foldl store (stCPtrs s) (decodedPointers ops emptyRecord chunks) \<and>
      (\<forall>l < length (stCPtrs s).
         stCPtrs (snd (recover ops s)) ! l =
           (case List.find (\<lambda>rp. cp_level rp = int l)
                   (rev (decodedPointers ops emptyRecord chunks)) of
              None \<Rightarrow> stCPtrs s ! l | Some rp \<Rightarrow> cp_key rp)))"
proof (intro conjI impI)
  assume failed: "fst (recover ops s) \<noteq> Returned None"
  then have "fst (recoverBody ops s) \<noteq> Returned None"
    by (simp add: recover_of_body)
  from recoverBody_frame[OF this]
  have fr: "snd (recover ops s) = s\<lparr>stCPtrs := stCPtrs (snd (recover ops s))\<rparr>"
    by (simp add: recover_of_body)
  then show "snd (recover ops s) = s\<lparr>stCPtrs := stCPtrs (snd (recover ops s))\<rparr>" .
  from fr show "stVersion (snd (recover ops s)) = stVersion s"
    by (metis session.select_convs(11) session.surjective session.update_convs(10))
  from fr show "stFileNum (snd (recover ops s)) = stFileNum s"
    by (metis session.select_convs(1) session.surjective session.update_convs(10))
next
  let ?ptrs = "decodedPointers ops emptyRecord chunks"
  let ?s1 = "s\<lparr>stCPtrs := foldl store (stCPtrs s) ?ptrs\<rparr>"
  assume h: "GetManifest (stor s) = Inr file \<and> Open (stor s) file = Inr rd \<and>
    journalNext ops rd (strictManifest s) = map Inr chunks \<and>
    (strictManifest s \<longrightarrow> allDecode ops emptyRecord chunks) \<and>
    list_all (inRange (length (stCPtrs s))) ?ptrs"
  then have a: "strictManifest s \<longrightarrow> allDecode ops emptyRecord chunks"
    and b: "list_all (inRange (length (stCPtrs s))) ?ptrs"
    by simp_all
  from replay_complete[OF a b, of "newStaging ops (version_NB s)"]
  obtain st' rec' where rp:
    "replay ops (strictManifest s) (map Inr chunks) s (newStaging ops (version_NB s)) emptyRecord =
       (None, ?s1, st', rec')"
    by blast
  have body: "fst (recoverBody ops s) = Returned (validate s rec')"
      "stCPtrs (snd (recoverBody ops s)) = foldl store (stCPtrs s) ?ptrs"
    using h rp
    by (simp_all add: recoverBody_def Let_def validate_frame setVersion_def setFileNum_def
          recordCommited_def split: option.splits)
  have res: "fst (recover ops s) = Returned (validate s rec')"
    using body(1) validate_not_NotExist[of s rec']
    by (simp add: recover_def split_beta split: prod.splits)
  then show "\<exists>rec'. fst (recover ops s) = Returned (validate s rec')"
    by blast
  show ptrs: "stCPtrs (snd (recover ops s)) = foldl store (stCPtrs s) ?ptrs"
    using body(2) by (simp add: recover_of_body)
  show "\<forall>l < length (stCPtrs s).
         stCPtrs (snd (recover ops s)) ! l =
           (case List.find (\<lambda>rp. cp_level rp = int l) (rev ?ptrs) of
              None \<Rightarrow> stCPtrs s ! l | Some rp \<Rightarrow> cp_key rp)"
    unfolding ptrs using foldl_store_nth[OF b] by blast
qed

lemma decode_p: "decode0 r ''p1m'' =
    (r\<lparr>compactionPointers := compactionPointers r @ [\<lparr>cp_level = 1, cp_key = Some ''m''\<rparr>]\<rparr>, None)"
  by (simp add: decode0_def)

lemma decode_n: "decode0 r ''n'' = (r\<lparr>hasRec := insert recNextNum (hasRec r), nextNum := 0\<rparr>, None)"
  by (simp add: decode0_def)

lemma decode_q: "decode0 r ''p2q'' =
    (r\<lparr>compactionPointers := compactionPointers r @ [\<lparr>cp_level = 2, cp_key = Some ''q''\<rparr>]\<rparr>, None)"
  by (simp add: decode0_def)

theorem recover_not_atomic_witness:
  "fst (recover (ops0 None) (sReplay ''p1m;p2q;n'')) =
     Returned (Some (ErrManifest (ErrorString ''leveldb: manifest missing comparer name''))) \<and>
   stCPtrs (sReplay ''p1m;p2q;n'') = [None, None, None, None, None, None, None] \<and>
   stCPtrs (snd (recover (ops0 None) (sReplay ''p1m;p2q;n''))) =
     [None, Some ''m'', Some ''q'', None, None, None, None] \<and>
   stVersion (snd (recover (ops0 None) (sReplay ''p1m;p2q;n''))) =
     stVersion (sReplay ''p1m;p2q;n'') \<and>
   stFileNum (snd (recover (ops0 None) (sReplay ''p1m;p2q;n''))) =
     stFileNum (sReplay ''p1m;p2q;n'')"
proof -
  let ?s = "sReplay ''p1m;p2q;n''"
  let ?f = "\<lparr>ftype = TypeManifest, fnum = 2\<rparr>"
  let ?chunks = "[''p1m'', ''p2q'', ''n'']"
  have sel: "GetManifest (stor ?s) = Inr ?f" "Open (stor ?s) ?f = Inr ''p1m;p2q;n''"
      "strictManifest ?s = False"
      "stCPtrs ?s = [None, None, None, None, None, None, None]"
    by (simp_all add: sReplay_def ses1_def)
  have ops: "journalNext (ops0 None) ''p1m;p2q;n'' False = map Inr ?chunks"
      "decode (ops0 None) = decode0"
    by (simp_all add: ops0_def)
  have ptrs: "decodedPointers (ops0 None) emptyRecord ?chunks =
      [\<lparr>cp_level = 1, cp_key = Some ''m''\<rparr>, \<lparr>cp_level = 2, cp_key = Some ''q''\<rparr>]"
    by (simp add: ops decode_p decode_q decode_n emptyRecord_def resetCompactionPointers_def
          resetAddedTables_def resetDeletedTables_def)
  have res: "fst (recover (ops0 None) ?s) =
      Returned (Some (ErrManifest (ErrorString ''leveldb: manifest missing comparer name'')))"
    by (simp add: recover_def recoverBody_def Let_def sel ops decode_p decode_q decode_n
          emptyRecord_def resetCompactionPointers_def resetAddedTables_def
          resetDeletedTables_def validate_def has_def)
  have hyp: "GetManifest (stor ?s) = Inr ?f \<and> Open (stor ?s) ?f = Inr ''p1m;p2q;n'' \<and>
      journalNext (ops0 None) ''p1m;p2q;n'' (strictManifest ?s) = map Inr ?chunks \<and>
      (strictManifest ?s \<longrightarrow> allDecode (ops0 None) emptyRecord ?chunks) \<and>
      list_all (inRange (length (stCPtrs ?s))) (decodedPointers (ops0 None) emptyRecord ?chunks)"
    unfolding ptrs by (simp add: sel ops inRange_def)
  note T = recover_not_atomic [of "ops0 None" ?s ?f "''p1m;p2q;n''" ?chunks]
  from T res have frame: "stVersion (snd (recover (ops0 None) ?s)) = stVersion ?s"
      "stFileNum (snd (recover (ops0 None) ?s)) = stFileNum ?s"
    by simp_all
  from T hyp have "stCPtrs (snd (recover (ops0 None) ?s)) =
      foldl store (stCPtrs ?s) (decodedPointers (ops0 None) emptyRecord ?chunks)"
    by blast
  then have "stCPtrs (snd (recover (ops0 None) ?s)) =
      [None, Some ''m'', Some ''q'', None, None, None, None]"
    unfolding ptrs sel by (simp add: store_def)
  with res frame sel(4) show ?thesis by simp
qed

end
